theory Spec2Isabelle
  imports Main "HOL-Library.Word" "HOL-Library.Sublist"
begin

section \<open>Data model\<close>

subsection \<open>Go values behind \<open>interface{}\<close>\<close>

text \<open>
  A byte slice (\<open>[]byte\<close>, \<open>json.RawMessage\<close>) is \<open>None\<close> when it is the nil slice and
  \<open>Some bs\<close> otherwise, so that the empty non-nil slice \<open>Some []\<close> differs from nil,
  as the comparison \<open>t == nil\<close> of the source does. A pointer \<open>*T\<close> is \<open>None\<close> when nil
  and \<open>Some v\<close> when it points to \<open>v\<close>. A \<open>float32\<close>/\<open>float64\<close> is carried as its
  IEEE bit pattern and a \<open>time.Time\<close> as an opaque instant: the code only passes them on.
\<close>

type_synonym bytes = "8 word list option"
type_synonym float32 = "32 word"
type_synonym float64 = "64 word"
type_synonym Time = int

text \<open>
  \<open>types.Value\<close> of the YDB SDK. The SDK is not part of this package: each SDK
  constructor the code calls is a constructor of the datatype, applied to the
  argument the code passes; \<open>ForeignValue\<close> stands for every other implementation of
  \<open>types.Value\<close> a caller may hand in.
\<close>

datatype yvalue =
    BoolValue bool
  | NullableBoolValue "bool option"
  | Int8Value "8 word"
  | NullableInt8Value "8 word option"
  | Int16Value "16 word"
  | NullableInt16Value "16 word option"
  | Int32Value "32 word"
  | NullableInt32Value "32 word option"
  | Int64Value "64 word"
  | NullableInt64Value "64 word option"
  | Uint8Value "8 word"
  | NullableUint8Value "8 word option"
  | Uint16Value "16 word"
  | NullableUint16Value "16 word option"
  | Uint32Value "32 word"
  | NullableUint32Value "32 word option"
  | Uint64Value "64 word"
  | NullableUint64Value "64 word option"
  | FloatValue float32
  | NullableFloatValue "float32 option"
  | DoubleValue float64
  | NullableDoubleValue "float64 option"
  | TextValue string
  | NullableTextValue "string option"
  | BytesValue bytes
  | TimestampValueFromTime Time
  | NullableTimestampValueFromTime "Time option"
  | JSONValueFromBytes bytes
  | NullableJSONValueFromBytes "bytes option"
  | ForeignValue string

text \<open>
  The dynamic value of an \<open>interface{}\<close> argument, one constructor per arm of the type
  switch of \<open>castArgToYQL\<close>, in the order of the source. \<open>'p\<close> is the type of the
  platform's \<open>int\<close> and \<open>uint\<close>, a word \<open>'w word\<close> of the platform's width
  wherever the code converts it. \<open>GoValue\<close> is a value that implements \<open>types.Value\<close>;
  \<open>GoOther\<close> is a value of any other type, given by the name \<open>%T\<close> prints.
\<close>

datatype 'p goval =
    GoBool bool
  | GoPtrBool "bool option"
  | GoInt 'p
  | GoPtrInt "'p option"
  | GoInt8 "8 word"
  | GoPtrInt8 "8 word option"
  | GoInt16 "16 word"
  | GoPtrInt16 "16 word option"
  | GoInt32 "32 word"
  | GoPtrInt32 "32 word option"
  | GoInt64 "64 word"
  | GoPtrInt64 "64 word option"
  | GoUint 'p
  | GoPtrUint "'p option"
  | GoUint8 "8 word"
  | GoPtrUint8 "8 word option"
  | GoUint16 "16 word"
  | GoPtrUint16 "16 word option"
  | GoUint32 "32 word"
  | GoPtrUint32 "32 word option"
  | GoUint64 "64 word"
  | GoPtrUint64 "64 word option"
  | GoFloat32 float32
  | GoPtrFloat32 "float32 option"
  | GoFloat64 float64
  | GoPtrFloat64 "float64 option"
  | GoString string
  | GoPtrString "string option"
  | GoBytes bytes
  | GoTime Time
  | GoPtrTime "Time option"
  | GoRawMessage bytes
  | GoValue yvalue
  | GoOther string

subsection \<open>Errors and results\<close>

text \<open>
  The errors the code builds with \<open>fmt.Errorf\<close>. The two type errors print the dynamic
  type (\<open>%T\<close>) of the offending argument, which the error carries here; \<open>Wrapf\<close> is
  \<open>fmt.Errorf("castArgToYQL: %w", err)\<close>; \<open>ProductionError\<close> is an error returned by a
  query object's \<open>ToSql\<close>.
\<close>

datatype 'p error =
    UnsupportedType "'p goval"
  | NotYdbValue "'p goval"
  | Wrapf string "'p error"
  | ProductionError string

text \<open>
  A Go call that returns \<open>(value, error)\<close> either returns the pair or panics:
  \<open>Returns v None\<close> is \<open>return v, nil\<close>, \<open>Returns [] (Some e)\<close> is \<open>return nil, e\<close>
  (a nil slice has no elements), \<open>Panics\<close> is a run-time panic.
\<close>

datatype ('a, 'p) outcome = Returns 'a "'p error option" | Panics

section \<open>The codec: \<open>castArgToYQL\<close> and \<open>castArgsToYQL\<close>\<close>

text \<open>
  The type switch of \<open>castArgToYQL\<close>, arm by arm. The arms for \<open>*int\<close> and \<open>*uint\<close>
  dereference the pointer (\<open>int64(*t)\<close>, \<open>uint64(*t)\<close>) before anything looks at it, which
  panics on nil; every other pointer arm hands the pointer to the SDK. \<open>int64(t)\<close> of an
  \<open>int\<close> is sign extension (\<open>scast\<close>), \<open>uint64(t)\<close> of a \<open>uint\<close> is zero extension
  (\<open>ucast\<close>).
\<close>

fun castArgToYQL :: "('w::len) word goval \<Rightarrow> (yvalue list, 'w word) outcome" where
  "castArgToYQL (GoBool t) = Returns [BoolValue t] None"
| "castArgToYQL (GoPtrBool t) = Returns [NullableBoolValue t] None"
| "castArgToYQL (GoInt t) = Returns [Int64Value (scast t)] None"
| "castArgToYQL (GoPtrInt t) =
     (case t of None \<Rightarrow> Panics
      | Some v \<Rightarrow> (let tt = scast v in Returns [NullableInt64Value (Some tt)] None))"
| "castArgToYQL (GoInt8 t) = Returns [Int8Value t] None"
| "castArgToYQL (GoPtrInt8 t) = Returns [NullableInt8Value t] None"
| "castArgToYQL (GoInt16 t) = Returns [Int16Value t] None"
| "castArgToYQL (GoPtrInt16 t) = Returns [NullableInt16Value t] None"
| "castArgToYQL (GoInt32 t) = Returns [Int32Value t] None"
| "castArgToYQL (GoPtrInt32 t) = Returns [NullableInt32Value t] None"
| "castArgToYQL (GoInt64 t) = Returns [Int64Value t] None"
| "castArgToYQL (GoPtrInt64 t) = Returns [NullableInt64Value t] None"
| "castArgToYQL (GoUint t) = Returns [Uint64Value (ucast t)] None"
| "castArgToYQL (GoPtrUint t) =
     (case t of None \<Rightarrow> Panics
      | Some v \<Rightarrow> (let tt = ucast v in Returns [NullableUint64Value (Some tt)] None))"
| "castArgToYQL (GoUint8 t) = Returns [Uint8Value t] None"
| "castArgToYQL (GoPtrUint8 t) = Returns [NullableUint8Value t] None"
| "castArgToYQL (GoUint16 t) = Returns [Uint16Value t] None"
| "castArgToYQL (GoPtrUint16 t) = Returns [NullableUint16Value t] None"
| "castArgToYQL (GoUint32 t) = Returns [Uint32Value t] None"
| "castArgToYQL (GoPtrUint32 t) = Returns [NullableUint32Value t] None"
| "castArgToYQL (GoUint64 t) = Returns [Uint64Value t] None"
| "castArgToYQL (GoPtrUint64 t) = Returns [NullableUint64Value t] None"
| "castArgToYQL (GoFloat32 t) = Returns [FloatValue t] None"
| "castArgToYQL (GoPtrFloat32 t) = Returns [NullableFloatValue t] None"
| "castArgToYQL (GoFloat64 t) = Returns [DoubleValue t] None"
| "castArgToYQL (GoPtrFloat64 t) = Returns [NullableDoubleValue t] None"
| "castArgToYQL (GoString t) = Returns [TextValue t] None"
| "castArgToYQL (GoPtrString t) = Returns [NullableTextValue t] None"
| "castArgToYQL (GoBytes t) = Returns [BytesValue t] None"
| "castArgToYQL (GoTime t) = Returns [TimestampValueFromTime t] None"
| "castArgToYQL (GoPtrTime t) = Returns [NullableTimestampValueFromTime t] None"
| "castArgToYQL (GoRawMessage t) =
     (if t = None then Returns [NullableJSONValueFromBytes None] None
      else Returns [JSONValueFromBytes t] None)"
| "castArgToYQL (GoValue v) = Returns [] (Some (UnsupportedType (GoValue v)))"
| "castArgToYQL (GoOther n) = Returns [] (Some (UnsupportedType (GoOther n)))"

text \<open>
  The loop of \<open>castArgsToYQL\<close> over the remaining arguments, with the slice \<open>yqlArgs\<close>
  built so far. A \<open>types.Value\<close> is appended as it is; anything else goes through
  \<open>castArgToYQL\<close>, whose values are appended one by one.
\<close>

fun castArgsToYQL_loop ::
  "('w::len) word goval list \<Rightarrow> 'w word goval list \<Rightarrow> ('w word goval list, 'w word) outcome"
where
  "castArgsToYQL_loop [] yqlArgs = Returns yqlArgs None"
| "castArgsToYQL_loop (arg # args) yqlArgs =
     (case arg of
        GoValue v \<Rightarrow> castArgsToYQL_loop args (yqlArgs @ [arg])
      | _ \<Rightarrow>
         (case castArgToYQL arg of
            Panics \<Rightarrow> Panics
          | Returns castedYQLArgs (Some err) \<Rightarrow> Returns [] (Some (Wrapf ''castArgToYQL'' err))
          | Returns castedYQLArgs None \<Rightarrow>
              castArgsToYQL_loop args (yqlArgs @ map GoValue castedYQLArgs)))"

definition castArgsToYQL ::
  "('w::len) word goval list \<Rightarrow> ('w word goval list, 'w word) outcome"
where
  "castArgsToYQL args =
     (if length args = 0 then Returns [] None else castArgsToYQL_loop args [])"

text \<open>Whether an argument is already a \<open>types.Value\<close>: the test \<open>arg.(types.Value)\<close>.\<close>

fun isValue :: "'p goval \<Rightarrow> bool" where
  "isValue (GoValue v) = True"
| "isValue a = False"

section \<open>Formatting verbs of package \<open>fmt\<close>\<close>

text \<open>\<open>%d\<close> of a non-negative integer: its decimal digits, most significant first.\<close>

definition digit :: "nat \<Rightarrow> char" where
  "digit d = ''0123456789'' ! d"

fun decimal :: "nat \<Rightarrow> string" where
  "decimal n = (if n < 10 then [digit n] else decimal (n div 10) @ [digit (n mod 10)])"

declare decimal.simps [simp del]

text \<open>
  \<open>%v\<close> of an argument: \<open>true\<close>/\<open>false\<close> for a \<open>bool\<close>, the text itself for a
  \<open>string\<close>. What \<open>fmt\<close> prints for the other kinds (digits of a float, the address
  held by a pointer, a \<open>String\<close> method) is the parameter \<open>other\<close>.
\<close>

fun fmt_v :: "('p goval \<Rightarrow> string) \<Rightarrow> 'p goval \<Rightarrow> string" where
  "fmt_v other (GoBool b) = (if b then ''true'' else ''false'')"
| "fmt_v other (GoString t) = t"
| "fmt_v other a = other a"

definition apostrophe :: char where
  "apostrophe = CHR 0x27"

definition newline :: char where
  "newline = CHR 0x0A"

section \<open>The debug renderer: \<open>DebugSqlizer\<close>\<close>

text \<open>
  A query object: what its \<open>ToSql\<close> returns, and what its \<open>debugPlaceholder\<close> returns
  when it implements \<open>placeholderDebugger\<close> (\<open>None\<close> when it does not).
\<close>

record 'p Sqlizer =
  ToSql :: "string \<times> 'p goval list \<times> 'p error option"
  debugPlaceholder :: "string option"

text \<open>
  \<open>DebugSqlizer\<close> returns a string; its return statements are the constructors:
  \<open>ToSqlError e\<close> is \<open>"[ToSql error: %s]"\<close>, \<open>TooManyPlaceholders sql n\<close> is
  \<open>"[DebugSqlizer error: too many placeholders in %#v for %d args]"\<close>,
  \<open>NotEnoughPlaceholders sql n\<close> is
  \<open>"[DebugSqlizer error: not enough placeholders in %#v for %d args]"\<close>, each with the
  values it formats, and \<open>Rendered t\<close> is \<open>buf.String()\<close>. \<open>SliceOutOfRange\<close> is the
  panic of \<open>sql[p+1:]\<close> when \<open>p + 1\<close> exceeds the length.
\<close>

datatype 'p rendering =
    Rendered string
  | ToSqlError "'p error"
  | TooManyPlaceholders string nat
  | NotEnoughPlaceholders string nat
  | SliceOutOfRange

text \<open>\<open>strings.Index\<close>: the first position where \<open>substr\<close> starts, \<open>None\<close> for \<open>-1\<close>.\<close>

fun Index :: "string \<Rightarrow> string \<Rightarrow> nat option" where
  "Index [] substr = (if substr = [] then Some 0 else None)"
| "Index (c # s) substr =
     (if prefix substr (c # s) then Some 0 else map_option Suc (Index s substr))"

text \<open>The statements after the loop.\<close>

definition DebugSqlizer_finish :: "'p goval list \<Rightarrow> string \<Rightarrow> nat \<Rightarrow> string \<Rightarrow> 'p rendering" where
  "DebugSqlizer_finish args sql i buf =
     (if i < length args then NotEnoughPlaceholders sql (length args)
      else Rendered (buf @ sql))"

text \<open>
  The \<open>for\<close> loop, on the cursor \<open>sql\<close>, the argument index \<open>i\<close> and the buffer
  \<open>buf\<close>. The escape test compares with the literal \<open>"??"\<close>, whatever the placeholder.
\<close>

function DebugSqlizer_loop ::
  "('p goval \<Rightarrow> string) \<Rightarrow> string \<Rightarrow> 'p goval list \<Rightarrow> string \<Rightarrow> nat \<Rightarrow> string \<Rightarrow> 'p rendering"
where
  "DebugSqlizer_loop other placeholder args sql i buf =
     (case Index sql placeholder of
        None \<Rightarrow> DebugSqlizer_finish args sql i buf
      | Some p \<Rightarrow>
          if length (drop p sql) > 1 \<and> take 2 (drop p sql) = ''??'' then
            if length (drop p sql) = 1
            then DebugSqlizer_finish args sql i (buf @ take p sql @ ''?'')
            else DebugSqlizer_loop other placeholder args (drop (p + 2) sql) i
                   (buf @ take p sql @ ''?'')
          else
            if i + 1 > length args then TooManyPlaceholders sql (length args)
            else if p + 1 > length sql then SliceOutOfRange
            else DebugSqlizer_loop other placeholder args (drop (p + 1) sql) (i + 1)
                   (buf @ take p sql @ [apostrophe] @ fmt_v other (args ! i) @ [apostrophe]))"
  by pat_completeness auto
termination
  by (relation "measure (\<lambda>(other, placeholder, args, sql, i, buf). length sql)") auto

declare DebugSqlizer_loop.simps [simp del]

definition DebugSqlizer :: "('p goval \<Rightarrow> string) \<Rightarrow> 'p Sqlizer \<Rightarrow> 'p rendering" where
  "DebugSqlizer other s =
     (case ToSql s of
        (sql, args, err) \<Rightarrow>
          (case err of
             Some e \<Rightarrow> ToSqlError e
           | None \<Rightarrow>
               (let placeholder = (case debugPlaceholder s of None \<Rightarrow> ''?'' | Some ph \<Rightarrow> ph)
                in DebugSqlizer_loop other placeholder args sql 0 [])))"

section \<open>The typed query assembler\<close>

text \<open>\<open>table.ValueParam(name, value)\<close>.\<close>

datatype ParameterOption = ValueParam string yvalue

text \<open>
  The loop of \<open>prepareYQLString\<close> from index \<open>i\<close> with the builder \<open>sb\<close>. \<open>yql v\<close>
  is \<open>v.Type().Yql()\<close>, the SDK's type text of a value.
\<close>

fun prepareYQLString_loop ::
  "(yvalue \<Rightarrow> string) \<Rightarrow> 'p goval list \<Rightarrow> nat \<Rightarrow> string \<Rightarrow> string \<times> 'p error option"
where
  "prepareYQLString_loop yql [] i sb = (sb, None)"
| "prepareYQLString_loop yql (arg # args) i sb =
     (case arg of
        GoValue yqlArg \<Rightarrow>
          prepareYQLString_loop yql args (i + 1)
            (sb @ ''DECLARE $p'' @ decimal (i + 1) @ '' AS '' @ yql yqlArg @ [CHR '';'', newline])
      | _ \<Rightarrow> ([], Some (NotYdbValue arg)))"

definition prepareYQLString ::
  "(yvalue \<Rightarrow> string) \<Rightarrow> string \<Rightarrow> 'p goval list \<Rightarrow> string \<times> 'p error option"
where
  "prepareYQLString yql sql args =
     (case prepareYQLString_loop yql args 0 [] of
        (sb, None) \<Rightarrow> (sb @ sql, None)
      | (sb, Some e) \<Rightarrow> ([], Some e))"

fun prepareYQLParams_loop ::
  "'p goval list \<Rightarrow> nat \<Rightarrow> ParameterOption list \<Rightarrow> ParameterOption list \<times> 'p error option"
where
  "prepareYQLParams_loop [] i yqlArgs = (yqlArgs, None)"
| "prepareYQLParams_loop (arg # args) i yqlArgs =
     (case arg of
        GoValue yqlArgValue \<Rightarrow>
          prepareYQLParams_loop args (i + 1)
            (yqlArgs @ [ValueParam (''p'' @ decimal (i + 1)) yqlArgValue])
      | _ \<Rightarrow> ([], Some (NotYdbValue arg)))"

definition prepareYQLParams ::
  "'p goval list \<Rightarrow> ParameterOption list \<times> 'p error option"
where
  "prepareYQLParams args = prepareYQLParams_loop args 0 []"

section \<open>Single-row execution: \<open>QueryRowWith\<close>\<close>

text \<open>
  The handle \<open>&Row{RowScanner: ..., err: ...}\<close> that \<open>QueryRowWith\<close> builds: the
  backend's row cursor and the error of \<open>ToSql\<close>.
\<close>

record ('c, 'p) Row =
  RowScanner :: 'c
  err :: "'p error option"

text \<open>
  \<open>QueryRowWith\<close>. The backend \<open>db\<close> is a state \<open>'db\<close> with its method \<open>QueryRow\<close>,
  which returns a cursor and the state after the call. The call
  \<open>db.QueryRow(query, args...)\<close> is made whatever \<open>ToSql\<close> returned as its error.
\<close>

definition QueryRowWith ::
  "('db \<Rightarrow> string \<Rightarrow> 'p goval list \<Rightarrow> 'c \<times> 'db) \<Rightarrow> 'db \<Rightarrow> 'p Sqlizer \<Rightarrow> ('c, 'p) Row \<times> 'db"
where
  "QueryRowWith QueryRow db s =
     (case ToSql s of
        (query, args, e) \<Rightarrow>
          (case QueryRow db query args of
             (cursor, db') \<Rightarrow> (\<lparr>RowScanner = cursor, err = e\<rparr>, db')))"

text \<open>
  Modelled from the spec: \<open>Row.Scan\<close>, the method of the handle, is declared in a file of
  the package that is not among the sources. The specification says of the handle that
  ``scanning surfaces the pre-existing error in preference to attempting to read the
  cursor'': with an error held, \<open>Scan\<close> returns it and leaves the cursor alone; with none,
  it is the cursor's own \<open>Scan\<close>, which returns its error and the cursor after the read.
\<close>

definition Row_Scan ::
  "('c \<Rightarrow> 'p error option \<times> 'c) \<Rightarrow> ('c, 'p) Row \<Rightarrow> 'p error option \<times> ('c, 'p) Row"
where
  "Row_Scan Scan r =
     (case err r of
        Some e \<Rightarrow> (Some e, r)
      | None \<Rightarrow> (case Scan (RowScanner r) of (res, cursor) \<Rightarrow> (res, r\<lparr>RowScanner := cursor\<rparr>)))"

section \<open>Vocabulary of the properties\<close>

text \<open>
  One declaration line as the specification words it: \<open>DECLARE $p<N> AS <type>;\<close> and a
  line break.
\<close>

definition declareLine :: "(yvalue \<Rightarrow> string) \<Rightarrow> nat \<Rightarrow> yvalue \<Rightarrow> string" where
  "declareLine yql N v = ''DECLARE $p'' @ decimal N @ '' AS '' @ yql v @ '';\<newline>''"

text \<open>The name and the value of a named binding.\<close>

fun paramName :: "ParameterOption \<Rightarrow> string" where
  "paramName (ValueParam name v) = name"

fun paramValue :: "ParameterOption \<Rightarrow> yvalue" where
  "paramValue (ValueParam name v) = v"

text \<open>Reading a decimal numeral back, used to show that distinct indices give distinct names.\<close>

definition digit_value :: "char \<Rightarrow> nat" where
  "digit_value c = of_char c - 48"

definition undecimal :: "string \<Rightarrow> nat" where
  "undecimal s = foldl (\<lambda>a c. 10 * a + digit_value c) 0 s"

text \<open>The placeholder token \<open>DebugSqlizer\<close> scans for.\<close>

definition placeholderOf :: "'p Sqlizer \<Rightarrow> string" where
  "placeholderOf s = (case debugPlaceholder s of None \<Rightarrow> ''?'' | Some ph \<Rightarrow> ph)"

text \<open>An argument's \<open>%v\<close> text between single quotes.\<close>

definition quoted :: "('p goval \<Rightarrow> string) \<Rightarrow> 'p goval \<Rightarrow> string" where
  "quoted other a = [apostrophe] @ fmt_v other a @ [apostrophe]"

text \<open>
  The escape test of the loop at an occurrence of the token \<open>c\<close> followed by \<open>post\<close>:
  \<open>sql[p:p+2] == "??"\<close>.
\<close>

definition escape :: "char \<Rightarrow> string \<Rightarrow> bool" where
  "escape c post = (c = CHR ''?'' \<and> take 1 post = ''?'')"

text \<open>
  The reading of a query text in the words of the specification, character by character
  from the left, for a single-character token \<open>c\<close>: an occurrence of the token followed at
  once by the token is an escape; any other occurrence is a non-escaped placeholder.

  \<open>doubled c s\<close>: somewhere in \<open>s\<close> the token is followed at once by the token.
\<close>

fun doubled :: "char \<Rightarrow> string \<Rightarrow> bool" where
  "doubled c (x # y # r) = ((x = c \<and> y = c) \<or> doubled c (y # r))"
| "doubled c s = False"

text \<open>The number of non-escaped placeholders of a text.\<close>

fun holes :: "char \<Rightarrow> string \<Rightarrow> nat" where
  "holes c [] = 0"
| "holes c [x] = (if x = c then 1 else 0)"
| "holes c (x # y # r) =
     (if x = c then (if y = c then holes c r else Suc (holes c (y # r)))
      else holes c (y # r))"

text \<open>
  The text with its placeholders filled in: an escape becomes one literal token, each
  non-escaped placeholder becomes the next argument between single quotes, every other
  character stays.
\<close>

fun filled :: "('p goval \<Rightarrow> string) \<Rightarrow> char \<Rightarrow> string \<Rightarrow> 'p goval list \<Rightarrow> string" where
  "filled other c [] args = []"
| "filled other c [x] args =
     (if x = c then (case args of [] \<Rightarrow> [] | a # as \<Rightarrow> quoted other a) else [x])"
| "filled other c (x # y # r) args =
     (if x = c then
        (if y = c then c # filled other c r args
         else (case args of [] \<Rightarrow> [] | a # as \<Rightarrow> quoted other a @ filled other c (y # r) as))
      else x # filled other c (y # r) args)"

text \<open>
  The remaining text when the scan stops. The scan passes escapes and, while arguments are
  left (\<open>k\<close> of them), non-escaped placeholders; it stops at the end of the text or at a
  non-escaped placeholder for which no argument is left. \<open>cur\<close> is the text behind the
  last escape or placeholder passed (the whole text when none was), and the last argument
  is what is still to be read; \<open>remaining c k sql sql\<close> is the remaining text of the scan
  of \<open>sql\<close> with \<open>k\<close> arguments.
\<close>

fun remaining :: "char \<Rightarrow> nat \<Rightarrow> string \<Rightarrow> string \<Rightarrow> string" where
  "remaining c k cur [] = cur"
| "remaining c k cur [x] = (if x = c \<and> 0 < k then [] else cur)"
| "remaining c k cur (x # y # r) =
     (if x = c then
        (if y = c then remaining c k r r
         else if k = 0 then cur
         else remaining c (k - 1) (y # r) (y # r))
      else remaining c k cur (y # r))"

section \<open>Properties of the codec\<close>

lemma isValue_iff: "isValue a = (\<exists>v. a = GoValue v)"
  by (cases a) simp_all

lemma castArgsToYQL_loop_value:
  "castArgsToYQL_loop (GoValue v # args) yqlArgs = castArgsToYQL_loop args (yqlArgs @ [GoValue v])"
  by simp

lemma castArgsToYQL_loop_other:
  "\<not> isValue arg \<Longrightarrow>
   castArgsToYQL_loop (arg # args) yqlArgs =
     (case castArgToYQL arg of
        Panics \<Rightarrow> Panics
      | Returns castedYQLArgs (Some e) \<Rightarrow> Returns [] (Some (Wrapf ''castArgToYQL'' e))
      | Returns castedYQLArgs None \<Rightarrow>
          castArgsToYQL_loop args (yqlArgs @ map GoValue castedYQLArgs))"
  by (cases arg) simp_all

declare castArgsToYQL_loop.simps(2) [simp del]

lemma castArgsToYQL_loop_values:
  "castArgsToYQL_loop (map GoValue vs) yqlArgs = Returns (yqlArgs @ map GoValue vs) None"
  by (induction vs arbitrary: yqlArgs) (simp_all add: castArgsToYQL_loop_value)

text \<open>Whatever the list cast returns without error holds typed values only.\<close>

lemma castArgsToYQL_loop_typed:
  "castArgsToYQL_loop args yqlArgs = Returns ys None \<Longrightarrow> list_all isValue yqlArgs \<Longrightarrow>
   list_all isValue ys"
proof (induction args arbitrary: yqlArgs)
  case Nil
  then show ?case by simp
next
  case (Cons arg args)
  show ?case
  proof (cases "isValue arg")
    case True
    then obtain v where "arg = GoValue v" by (auto simp: isValue_iff)
    with Cons show ?thesis by (simp add: castArgsToYQL_loop_value)
  next
    case False
    with Cons.prems(1) obtain cs where
      c: "castArgToYQL arg = Returns cs None" and
      l: "castArgsToYQL_loop args (yqlArgs @ map GoValue cs) = Returns ys None"
      by (auto simp: castArgsToYQL_loop_other split: outcome.splits option.splits)
    have "list_all isValue (yqlArgs @ map GoValue cs)"
      using Cons.prems(2) by (auto simp: list_all_iff)
    with Cons.IH l show ?thesis by blast
  qed
qed

lemma list_all_isValue_map: "list_all isValue ys \<Longrightarrow> \<exists>vs. ys = map GoValue vs"
proof (induction ys)
  case Nil
  then show ?case by simp
next
  case (Cons a ys)
  then obtain v vs where "a = GoValue v" "ys = map GoValue vs"
    by (auto simp: isValue_iff)
  then have "a # ys = map GoValue (v # vs)" by simp
  then show ?case by (rule exI [of _ "v # vs"])
qed

lemma castArgsToYQL_values: "castArgsToYQL (map GoValue vs) = Returns (map GoValue vs) None"
  by (simp add: castArgsToYQL_def castArgsToYQL_loop_values)

lemma castArgsToYQL_returns_values:
  "castArgsToYQL args = Returns ys None \<Longrightarrow> \<exists>vs. ys = map GoValue vs"
proof (cases "length args = 0")
  case True
  assume "castArgsToYQL args = Returns ys None"
  with True have "ys = map GoValue []" by (simp add: castArgsToYQL_def)
  then show ?thesis by (rule exI [of _ "[]"])
next
  case False
  assume "castArgsToYQL args = Returns ys None"
  with False have "castArgsToYQL_loop args [] = Returns ys None"
    by (simp add: castArgsToYQL_def)
  then have "list_all isValue ys"
    by (rule castArgsToYQL_loop_typed) simp
  then show ?thesis by (rule list_all_isValue_map)
qed

subsection \<open>Pointers to primitives\<close>

text \<open>
  Every pointer arm but \<open>*int\<close> and \<open>*uint\<close> returns the nullable kind and carries the
  pointer's state with it: absent for nil, present with the value otherwise.
\<close>

lemma castArgToYQL_pointer_arms:
  "castArgToYQL (GoPtrBool b) = Returns [NullableBoolValue b] None"
  "castArgToYQL (GoPtrInt8 i8) = Returns [NullableInt8Value i8] None"
  "castArgToYQL (GoPtrInt16 i16) = Returns [NullableInt16Value i16] None"
  "castArgToYQL (GoPtrInt32 i32) = Returns [NullableInt32Value i32] None"
  "castArgToYQL (GoPtrInt64 i64) = Returns [NullableInt64Value i64] None"
  "castArgToYQL (GoPtrUint8 u8) = Returns [NullableUint8Value u8] None"
  "castArgToYQL (GoPtrUint16 u16) = Returns [NullableUint16Value u16] None"
  "castArgToYQL (GoPtrUint32 u32) = Returns [NullableUint32Value u32] None"
  "castArgToYQL (GoPtrUint64 u64) = Returns [NullableUint64Value u64] None"
  "castArgToYQL (GoPtrFloat32 f32) = Returns [NullableFloatValue f32] None"
  "castArgToYQL (GoPtrFloat64 f64) = Returns [NullableDoubleValue f64] None"
  "castArgToYQL (GoPtrString s) = Returns [NullableTextValue s] None"
  "castArgToYQL (GoPtrTime tm) = Returns [NullableTimestampValueFromTime tm] None"
  by simp_all

text \<open>
  A non-nil \<open>*int\<close> or \<open>*uint\<close>, and an \<open>int\<close> or \<open>uint\<close>, map to the 64-bit kinds;
  on a platform of at most 64 bits the conversion keeps the value.
\<close>

lemma castArgToYQL_int_widened:
  "castArgToYQL (GoInt t) = Returns [Int64Value (scast t)] None"
  "castArgToYQL (GoPtrInt (Some t)) = Returns [NullableInt64Value (Some (scast t))] None"
  "LENGTH('w) \<le> 64 \<Longrightarrow> sint (scast (t :: 'w::len word) :: 64 word) = sint t"
  by (simp_all add: sint_up_scast is_up)

lemma castArgToYQL_uint_widened:
  "castArgToYQL (GoUint t) = Returns [Uint64Value (ucast t)] None"
  "castArgToYQL (GoPtrUint (Some t)) = Returns [NullableUint64Value (Some (ucast t))] None"
  "LENGTH('w) \<le> 64 \<Longrightarrow> uint (ucast (t :: 'w::len word) :: 64 word) = uint t"
  by (simp_all add: uint_up_ucast is_up)

text \<open>
  C2. Claimed: every pointer to a supported primitive is cast to the nullable kind, absent
  for nil, and the cast never panics. The arm for \<open>*int\<close> evaluates \<open>int64(*t)\<close> before
  anything tests the pointer, so a nil \<open>*int\<close> panics, where the arm for \<open>*int64\<close> hands
  the pointer to \<open>NullableInt64Value\<close> and returns the absent value.
\<close>

theorem castArgToYQL_nil_int_pointer_panics:
  "castArgToYQL (GoPtrInt None) = Panics"
  by simp

text \<open>
  C10. Claimed: a \<open>uint\<close> is cast to the present 64-bit unsigned kind and a \<open>*uint\<close> to the
  nullable 64-bit unsigned kind. The arm for \<open>*uint\<close> evaluates \<open>uint64(*t)\<close> first, so a
  nil \<open>*uint\<close> yields no value at all: the cast panics.
\<close>

theorem castArgToYQL_nil_uint_pointer_panics:
  "castArgToYQL (GoPtrUint None) = Panics"
  by simp

subsection \<open>JSON\<close>

text \<open>
  C9. A \<open>json.RawMessage\<close> is cast to the present JSON value when it is not nil, also
  when it is empty, and to the nullable JSON value in the absent state exactly when it is
  the nil slice.
\<close>

theorem castArgToYQL_RawMessage:
  "castArgToYQL (GoRawMessage None) = Returns [NullableJSONValueFromBytes None] None \<and>
   castArgToYQL (GoRawMessage (Some bs)) = Returns [JSONValueFromBytes (Some bs)] None \<and>
   castArgToYQL (GoRawMessage (Some [])) = Returns [JSONValueFromBytes (Some [])] None \<and>
   ((castArgToYQL (GoRawMessage t) = Returns [NullableJSONValueFromBytes None] None) = (t = None))"
  by simp

subsection \<open>Values that are already typed\<close>

lemma castArgToYQL_error:
  "castArgToYQL a = Returns cs (Some e) \<Longrightarrow> cs = [] \<and> e = UnsupportedType a"
  by (cases a) (auto split: option.splits if_splits)

lemma castArgsToYQL_loop_acc:
  "castArgsToYQL_loop args acc =
     (case castArgsToYQL_loop args [] of
        Panics \<Rightarrow> Panics
      | Returns r (Some e) \<Rightarrow> Returns [] (Some e)
      | Returns r None \<Rightarrow> Returns (acc @ r) None)"
proof (induction args arbitrary: acc)
  case Nil
  then show ?case by simp
next
  case (Cons arg args)
  show ?case
  proof (cases "isValue arg")
    case True
    then obtain v where v: "arg = GoValue v" by (auto simp: isValue_iff)
    show ?thesis
      unfolding v castArgsToYQL_loop_value
      by (subst Cons.IH [of "acc @ [GoValue v]"], subst Cons.IH [of "[] @ [GoValue v]"])
         (simp split: outcome.splits option.splits)
  next
    case False
    show ?thesis
    proof (cases "castArgToYQL arg")
      case Panics
      with False show ?thesis by (simp add: castArgsToYQL_loop_other)
    next
      case (Returns cs eo)
      show ?thesis
      proof (cases eo)
        case (Some e)
        with Returns False show ?thesis by (simp add: castArgsToYQL_loop_other)
      next
        case None
        with Returns False show ?thesis
          by (simp add: castArgsToYQL_loop_other)
             (subst Cons.IH [of "acc @ map GoValue cs"], subst Cons.IH [of "map GoValue cs"],
              simp split: outcome.splits option.splits)
      qed
    qed
  qed
qed

lemma castArgsToYQL_loop_append:
  "castArgsToYQL_loop (xs @ ys) acc =
     (case castArgsToYQL_loop xs acc of
        Panics \<Rightarrow> Panics
      | Returns r (Some e) \<Rightarrow> Returns r (Some e)
      | Returns r None \<Rightarrow> castArgsToYQL_loop ys r)"
proof (induction xs arbitrary: acc)
  case Nil
  then show ?case by simp
next
  case (Cons arg xs)
  show ?case
  proof (cases "isValue arg")
    case True
    then obtain v where v: "arg = GoValue v" by (auto simp: isValue_iff)
    show ?thesis
      using Cons.IH [of "acc @ [GoValue v]"] by (simp add: v castArgsToYQL_loop_value)
  next
    case False
    then have "\<not> isValue arg" .
    then show ?thesis
      using Cons.IH
      by (simp add: castArgsToYQL_loop_other split: outcome.splits option.splits)
  qed
qed

lemma castArgsToYQL_is_loop: "castArgsToYQL args = castArgsToYQL_loop args []"
  by (cases args) (simp_all add: castArgsToYQL_def)

lemma castArgsToYQL_typed_in_place:
  "castArgsToYQL (xs @ GoValue v # ys) =
     (case castArgsToYQL xs of
        Panics \<Rightarrow> Panics
      | Returns xs' (Some e) \<Rightarrow> Returns [] (Some e)
      | Returns xs' None \<Rightarrow>
          (case castArgsToYQL ys of
             Panics \<Rightarrow> Panics
           | Returns ys' (Some e) \<Rightarrow> Returns [] (Some e)
           | Returns ys' None \<Rightarrow> Returns (xs' @ GoValue v # ys') None))"
proof -
  have "castArgsToYQL_loop (GoValue v # ys) acc =
      (case castArgsToYQL_loop ys [] of
        Panics \<Rightarrow> Panics
      | Returns r (Some e) \<Rightarrow> Returns [] (Some e)
      | Returns r None \<Rightarrow> Returns (acc @ GoValue v # r) None)" for acc
    by (simp add: castArgsToYQL_loop_value)
       (subst castArgsToYQL_loop_acc, simp split: outcome.splits option.splits)
  moreover have "castArgsToYQL_loop xs [] = Returns r (Some e) \<Longrightarrow> r = []" for r e
    by (subst (asm) castArgsToYQL_loop_acc) (simp split: outcome.splits option.splits)
  ultimately show ?thesis
    by (auto simp: castArgsToYQL_is_loop castArgsToYQL_loop_append
        split: outcome.splits option.splits)
qed

lemma castArgsToYQL_loop_failure:
  "(castArgsToYQL_loop args acc = Returns r (Some e) \<longrightarrow>
      r = [] \<and> (\<exists>a\<in>set args. \<not> isValue a \<and> e = Wrapf ''castArgToYQL'' (UnsupportedType a))) \<and>
   (castArgsToYQL_loop args acc = Panics \<longrightarrow>
      (\<exists>a\<in>set args. \<not> isValue a \<and> castArgToYQL a = Panics))"
proof (induction args arbitrary: acc)
  case Nil
  then show ?case by simp
next
  case (Cons arg args)
  show ?case
  proof (cases "isValue arg")
    case True
    then obtain v where v: "arg = GoValue v" by (auto simp: isValue_iff)
    show ?thesis
      using Cons.IH [of "acc @ [GoValue v]"] by (simp add: v castArgsToYQL_loop_value)
  next
    case False
    then show ?thesis
      using Cons.IH
      by (auto simp: castArgsToYQL_loop_other dest: castArgToYQL_error
          split: outcome.splits option.splits)
  qed
qed


text \<open>
  C7, as claimed for the single-value cast, fails: \<open>castArgToYQL\<close> has no arm for
  \<open>types.Value\<close>, so a typed value reaches \<open>default\<close> and is rejected.
\<close>

theorem castArgToYQL_typed_value_counterexample:
  "castArgToYQL (GoValue (BoolValue True) :: 64 word goval)
     = Returns [] (Some (UnsupportedType (GoValue (BoolValue True))))"
  by simp

text \<open>
  C7, amended. In the list cast a value that is already typed is a no-op wherever it
  stands: the cast of \<open>xs\<close>, the typed value, \<open>ys\<close> is the cast of \<open>xs\<close>, the value
  itself, the cast of \<open>ys\<close>, and fails only if the cast of \<open>xs\<close> or of \<open>ys\<close> fails.
  An error of the list cast is the wrapped unsupported-type error of an argument that is
  not typed, and a panic is the panic of an argument that is not typed. A list of typed
  values is returned as it is, and casting again what the list cast returned gives the
  same list. The single-value cast, called on a typed value, returns the
  unsupported-type error.
\<close>

theorem castArgsToYQL_pass_through:
  fixes xs ys rejected faulty args :: "('w::len) word goval list"
  shows
  "castArgsToYQL (xs @ GoValue v # ys) =
     (case castArgsToYQL xs of
        Panics \<Rightarrow> Panics
      | Returns xs' (Some e) \<Rightarrow> Returns [] (Some e)
      | Returns xs' None \<Rightarrow>
          (case castArgsToYQL ys of
             Panics \<Rightarrow> Panics
           | Returns ys' (Some e) \<Rightarrow> Returns [] (Some e)
           | Returns ys' None \<Rightarrow> Returns (xs' @ GoValue v # ys') None)) \<and>
   (castArgsToYQL rejected = Returns r (Some e) \<longrightarrow>
      r = [] \<and> (\<exists>a\<in>set rejected. \<not> isValue a \<and> e = Wrapf ''castArgToYQL'' (UnsupportedType a))) \<and>
   (castArgsToYQL faulty = Panics \<longrightarrow>
      (\<exists>a\<in>set faulty. \<not> isValue a \<and> castArgToYQL a = Panics)) \<and>
   castArgsToYQL (map GoValue vs) = Returns (map GoValue vs) None \<and>
   (castArgsToYQL args = Returns out None \<longrightarrow> castArgsToYQL out = Returns out None) \<and>
   castArgToYQL (GoValue v) = Returns [] (Some (UnsupportedType (GoValue v)))"
proof -
  have "castArgsToYQL out = Returns out None" if "castArgsToYQL args = Returns out None"
  proof -
    from that obtain vs' where "out = map GoValue vs'"
      using castArgsToYQL_returns_values by blast
    then show ?thesis by (simp add: castArgsToYQL_values)
  qed
  moreover have "castArgsToYQL rejected = Returns r (Some e) \<longrightarrow>
      r = [] \<and> (\<exists>a\<in>set rejected. \<not> isValue a \<and> e = Wrapf ''castArgToYQL'' (UnsupportedType a))"
    using castArgsToYQL_loop_failure [of rejected "[]" r e]
    by (simp add: castArgsToYQL_is_loop)
  moreover have "castArgsToYQL faulty = Panics \<longrightarrow>
      (\<exists>a\<in>set faulty. \<not> isValue a \<and> castArgToYQL a = Panics)"
    using castArgsToYQL_loop_failure [of faulty "[]"]
    by (simp add: castArgsToYQL_is_loop)
  ultimately show ?thesis
    using castArgsToYQL_typed_in_place [of xs v ys]
    by (simp add: castArgsToYQL_values)
qed

theorem castArgsToYQL_pass_through_witness:
  "castArgsToYQL [GoInt64 7, GoValue (TextValue ''a''), GoBool True :: 64 word goval]
     = Returns [GoValue (Int64Value 7), GoValue (TextValue ''a''), GoValue (BoolValue True)] None \<and>
   castArgsToYQL [GoValue (TextValue ''a''), GoOther ''chan int'' :: 64 word goval]
     = Returns [] (Some (Wrapf ''castArgToYQL'' (UnsupportedType (GoOther ''chan int'')))) \<and>
   castArgsToYQL [GoValue (TextValue ''a''), GoPtrInt None :: 64 word goval] = Panics \<and>
   castArgsToYQL [GoValue (Int64Value 7), GoValue (TextValue ''a''), GoValue (BoolValue True) :: 64 word goval]
     = Returns [GoValue (Int64Value 7), GoValue (TextValue ''a''), GoValue (BoolValue True)] None"
  using castArgsToYQL_pass_through
    [of "[GoInt64 7 :: 64 word goval]" "TextValue ''a''" "[GoBool True]"
        "[GoValue (TextValue ''a''), GoOther ''chan int'']" "[]"
        "Wrapf ''castArgToYQL'' (UnsupportedType (GoOther ''chan int''))"
        "[GoValue (TextValue ''a''), GoPtrInt None]"
        "[]"
        "[GoInt64 7, GoValue (TextValue ''a''), GoBool True]"
        "[GoValue (Int64Value 7), GoValue (TextValue ''a''), GoValue (BoolValue True)]"]
  by (simp add: castArgsToYQL_def castArgsToYQL_loop_value castArgsToYQL_loop_other)

section \<open>Properties of the typed query assembler\<close>

subsection \<open>Decimal indices\<close>

lemma digit_cases:
  "d < 10 \<Longrightarrow>
   d = 0 \<or> d = 1 \<or> d = 2 \<or> d = 3 \<or> d = 4 \<or> d = 5 \<or> d = 6 \<or> d = 7 \<or> d = 8 \<or> d = (9::nat)"
  by arith

lemma digit_value_digit: "d < 10 \<Longrightarrow> digit_value (digit d) = d"
  using digit_cases [of d] by (auto simp: digit_def digit_value_def)

lemma undecimal_decimal: "undecimal (decimal n) = n"
proof (induction n rule: decimal.induct)
  case (1 n)
  show ?case
  proof (cases "n < 10")
    case True
    then show ?thesis
      by (simp add: decimal.simps [of n] undecimal_def digit_value_digit)
  next
    case False
    with 1 have "undecimal (decimal (n div 10)) = n div 10" by simp
    with False show ?thesis
      by (simp add: decimal.simps [of n] undecimal_def digit_value_digit)
  qed
qed

lemma inj_decimal: "inj decimal"
  by (rule inj_on_inverseI [of _ undecimal]) (rule undecimal_decimal)

subsection \<open>The two loops\<close>

lemma prepareYQLString_loop_other:
  "\<not> isValue arg \<Longrightarrow> prepareYQLString_loop yql (arg # args) i sb = ([], Some (NotYdbValue arg))"
  by (cases arg) simp_all

lemma prepareYQLParams_loop_other:
  "\<not> isValue arg \<Longrightarrow> prepareYQLParams_loop (arg # args) i yqlArgs = ([], Some (NotYdbValue arg))"
  by (cases arg) simp_all

lemma prepareYQLString_loop_value:
  "prepareYQLString_loop yql (GoValue v # args) i sb =
     prepareYQLString_loop yql args (Suc i) (sb @ declareLine yql (Suc i) v)"
  by (simp add: declareLine_def newline_def)

lemma prepareYQLParams_loop_value:
  "prepareYQLParams_loop (GoValue v # args) i yqlArgs =
     prepareYQLParams_loop args (Suc i) (yqlArgs @ [ValueParam (''p'' @ decimal (Suc i)) v])"
  by simp

declare prepareYQLString_loop.simps(2) [simp del] prepareYQLParams_loop.simps(2) [simp del]

lemma prepareYQLString_loop_values:
  "prepareYQLString_loop yql (map GoValue vs @ rest) i sb =
     prepareYQLString_loop yql rest (i + length vs)
       (sb @ concat (map (\<lambda>(N, v). declareLine yql N v) (enumerate (Suc i) vs)))"
  by (induction vs arbitrary: i sb) (simp_all add: prepareYQLString_loop_value)

lemma prepareYQLParams_loop_values:
  "prepareYQLParams_loop (map GoValue vs @ rest) i yqlArgs =
     prepareYQLParams_loop rest (i + length vs)
       (yqlArgs @ map (\<lambda>(N, v). ValueParam (''p'' @ decimal N) v) (enumerate (Suc i) vs))"
  by (induction vs arbitrary: i yqlArgs) (simp_all add: prepareYQLParams_loop_value)

lemma prepareYQLString_loop_all_values:
  "prepareYQLString_loop yql (map GoValue vs) i sb =
     (sb @ concat (map (\<lambda>(N, v). declareLine yql N v) (enumerate (Suc i) vs)), None)"
  using prepareYQLString_loop_values [of yql vs "[]" i sb] by simp

lemma prepareYQLParams_loop_all_values:
  "prepareYQLParams_loop (map GoValue vs) i yqlArgs =
     (yqlArgs @ map (\<lambda>(N, v). ValueParam (''p'' @ decimal N) v) (enumerate (Suc i) vs), None)"
  using prepareYQLParams_loop_values [of vs "[]" i yqlArgs] by simp

lemma typed_prefix:
  "(\<exists>vs. args = map GoValue vs) \<or> (\<exists>vs a rest. \<not> isValue a \<and> args = map GoValue vs @ a # rest)"
proof (induction args)
  case Nil
  then show ?case by simp
next
  case (Cons x xs)
  show ?case
  proof (cases "isValue x")
    case False
    then have "\<not> isValue x \<and> x # xs = map GoValue [] @ x # xs" by simp
    then have "\<exists>vs' a' rest'. \<not> isValue a' \<and> x # xs = map GoValue vs' @ a' # rest'"
      by (intro exI)
    then show ?thesis by (rule disjI2)
  next
    case True
    then obtain v where x: "x = GoValue v" by (auto simp: isValue_iff)
    from Cons show ?thesis
    proof
      assume "\<exists>vs. xs = map GoValue vs"
      then obtain vs where "xs = map GoValue vs" ..
      with x have "x # xs = map GoValue (v # vs)" by simp
      then have "\<exists>vs'. x # xs = map GoValue vs'" by (rule exI [of _ "v # vs"])
      then show ?thesis by (rule disjI1)
    next
      assume "\<exists>vs a rest. \<not> isValue a \<and> xs = map GoValue vs @ a # rest"
      then obtain vs a rest where "\<not> isValue a" "xs = map GoValue vs @ a # rest" by blast
      with x have "\<not> isValue a \<and> x # xs = map GoValue (v # vs) @ a # rest" by simp
      then have "\<exists>vs' a' rest'. \<not> isValue a' \<and> x # xs = map GoValue vs' @ a' # rest'"
        by (intro exI)
      then show ?thesis by (rule disjI2)
    qed
  qed
qed

lemma prepareYQLString_values:
  "prepareYQLString yql sql (map GoValue vs) =
     (concat (map (\<lambda>(N, v). declareLine yql N v) (enumerate 1 vs)) @ sql, None)"
  by (simp add: prepareYQLString_def prepareYQLString_loop_all_values)

lemma prepareYQLString_not_value:
  "\<not> isValue a \<Longrightarrow> prepareYQLString yql sql (map GoValue vs @ a # rest) = ([], Some (NotYdbValue a))"
  by (simp add: prepareYQLString_def prepareYQLString_loop_values prepareYQLString_loop_other)

lemma prepareYQLParams_values:
  "prepareYQLParams (map GoValue vs) =
     (map (\<lambda>(N, v). ValueParam (''p'' @ decimal N) v) (enumerate 1 vs), None)"
  by (simp add: prepareYQLParams_def prepareYQLParams_loop_all_values)

lemma prepareYQLParams_not_value:
  "\<not> isValue a \<Longrightarrow> prepareYQLParams (map GoValue vs @ a # rest) = ([], Some (NotYdbValue a))"
  by (simp add: prepareYQLParams_def prepareYQLParams_loop_values prepareYQLParams_loop_other)

text \<open>
  C8. On typed arguments \<open>prepareYQLString\<close> returns one line \<open>DECLARE $p<N> AS <type>;\<close>
  with a line break per argument, \<open>N\<close> counting from 1 in argument order, followed by the
  body text as it is. At the first argument that is not a \<open>types.Value\<close> it returns the
  empty text and the error naming that argument.
\<close>

theorem prepareYQLString_declares:
  "prepareYQLString yql sql (map GoValue vs) =
     (concat (map (\<lambda>(N, v). declareLine yql N v) (enumerate 1 vs)) @ sql, None) \<and>
   (\<not> isValue a \<longrightarrow>
      prepareYQLString yql sql (map GoValue vs @ a # rest) = ([], Some (NotYdbValue a)))"
  by (simp add: prepareYQLString_values prepareYQLString_not_value)

theorem prepareYQLString_declares_witness:
  "prepareYQLString (\<lambda>v. ''Int64'') ''SELECT $p1'' [GoValue (Int64Value 7) :: 64 word goval]
     = (''DECLARE $p1 AS Int64;\<newline>SELECT $p1'', None) \<and>
   \<not> isValue (GoInt64 5 :: 64 word goval) \<and>
   prepareYQLString (\<lambda>v. ''Int64'') ''SELECT $p1'' [GoValue (Int64Value 7), GoInt64 5 :: 64 word goval]
     = ([], Some (NotYdbValue (GoInt64 5)))"
  using prepareYQLString_declares
    [of "\<lambda>v. ''Int64''" "''SELECT $p1''" "[Int64Value 7]" "GoInt64 5 :: 64 word goval" "[]"]
  by (simp add: declareLine_def decimal.simps digit_def)

lemma assembler_agreement:
  "snd (prepareYQLString yql sql args) = snd (prepareYQLParams args) \<and>
   (snd (prepareYQLParams args) = None \<longrightarrow>
      length (fst (prepareYQLParams args)) = length args \<and>
      (\<forall>i<length args.
         fst (prepareYQLParams args) ! i = ValueParam (''p'' @ decimal (i + 1)) (paramValue (fst (prepareYQLParams args) ! i)) \<and>
         args ! i = GoValue (paramValue (fst (prepareYQLParams args) ! i))) \<and>
      distinct (map paramName (fst (prepareYQLParams args))) \<and>
      fst (prepareYQLString yql sql args) =
        concat (map (\<lambda>p. ''DECLARE $'' @ paramName p @ '' AS '' @ yql (paramValue p) @ '';\<newline>'')
                  (fst (prepareYQLParams args))) @ sql)"
proof -
  from typed_prefix [of args] show ?thesis
  proof
    assume "\<exists>vs a rest. \<not> isValue a \<and> args = map GoValue vs @ a # rest"
    then show ?thesis
      by (auto simp: prepareYQLString_not_value prepareYQLParams_not_value)
  next
    assume "\<exists>vs. args = map GoValue vs"
    then obtain vs where args: "args = map GoValue vs" ..
    let ?ps = "map (\<lambda>(N, v). ValueParam (''p'' @ decimal N) v) (enumerate 1 vs)"
    have ps: "prepareYQLParams (map GoValue vs) = (?ps, None)"
      by (simp add: prepareYQLParams_values)
    have nth: "?ps ! i = ValueParam (''p'' @ decimal (i + 1)) (vs ! i)" if "i < length vs" for i
      using that by (simp add: nth_enumerate_eq)
    have names: "map paramName ?ps = map (\<lambda>i. ''p'' @ decimal (Suc i)) [0..<length vs]"
      by (rule nth_equalityI) (simp_all add: nth_enumerate_eq)
    have "inj (\<lambda>i. ''p'' @ decimal (Suc i))"
      using inj_decimal by (auto simp: inj_def)
    then have dist: "distinct (map paramName ?ps)"
      unfolding names by (simp add: distinct_map inj_on_def inj_def)
    have lines: "map (\<lambda>p. ''DECLARE $'' @ paramName p @ '' AS '' @ yql (paramValue p) @ '';\<newline>'') ?ps
        = map (\<lambda>(N, v). declareLine yql N v) (enumerate 1 vs)"
      by (simp add: declareLine_def case_prod_unfold)
    have str: "prepareYQLString yql sql (map GoValue vs) =
        (concat (map (\<lambda>p. ''DECLARE $'' @ paramName p @ '' AS '' @ yql (paramValue p) @ '';\<newline>'') ?ps)
           @ sql, None)"
      by (simp only: prepareYQLString_values lines)
    show ?thesis
      unfolding args ps str fst_conv snd_conv
      using nth dist by simp
  qed
qed

lemma prepareYQLParams_after_cast:
  "castArgsToYQL raw = Returns args None \<Longrightarrow> snd (prepareYQLParams args) = None"
proof -
  assume "castArgsToYQL raw = Returns args None"
  then obtain vs where "args = map GoValue vs"
    using castArgsToYQL_returns_values by blast
  then show ?thesis by (simp add: prepareYQLParams_values)
qed

text \<open>
  C1. \<open>prepareYQLString\<close> and \<open>prepareYQLParams\<close> fail on the same argument lists with
  the same error. When they succeed there is one binding per argument, the binding at
  position \<open>i\<close> (from 0) is named \<open>p<i+1>\<close> and holds that argument, the names are
  pairwise distinct, and the declared text is, binding by binding and in the same order,
  the line \<open>DECLARE $<name> AS <type>;\<close>, followed by the body. What \<open>castArgsToYQL\<close>
  returns is accepted by both.
\<close>

theorem declared_names_agree:
  "snd (prepareYQLString yql sql args) = snd (prepareYQLParams args) \<and>
   (castArgsToYQL raw = Returns args None \<longrightarrow> snd (prepareYQLParams args) = None) \<and>
   (snd (prepareYQLParams args) = None \<longrightarrow>
      length (fst (prepareYQLParams args)) = length args \<and>
      (\<forall>i<length args.
         fst (prepareYQLParams args) ! i =
           ValueParam (''p'' @ decimal (i + 1)) (paramValue (fst (prepareYQLParams args) ! i)) \<and>
         args ! i = GoValue (paramValue (fst (prepareYQLParams args) ! i))) \<and>
      distinct (map paramName (fst (prepareYQLParams args))) \<and>
      fst (prepareYQLString yql sql args) =
        concat (map (\<lambda>p. ''DECLARE $'' @ paramName p @ '' AS '' @ yql (paramValue p) @ '';\<newline>'')
                  (fst (prepareYQLParams args))) @ sql)"
  using assembler_agreement [of yql sql args] prepareYQLParams_after_cast [of raw args]
  by blast

theorem declared_names_agree_witness:
  "castArgsToYQL [GoInt64 7, GoValue (BoolValue True) :: 64 word goval]
     = Returns [GoValue (Int64Value 7), GoValue (BoolValue True)] None \<and>
   prepareYQLParams [GoValue (Int64Value 7), GoValue (BoolValue True) :: 64 word goval]
     = ([ValueParam ''p1'' (Int64Value 7), ValueParam ''p2'' (BoolValue True)], None) \<and>
   prepareYQLString (\<lambda>v. ''T'') ''SELECT $p1, $p2''
       [GoValue (Int64Value 7), GoValue (BoolValue True) :: 64 word goval]
     = (''DECLARE $p1 AS T;\<newline>DECLARE $p2 AS T;\<newline>SELECT $p1, $p2'', None)"
  using declared_names_agree
    [of "\<lambda>v. ''T''" "''SELECT $p1, $p2''"
        "[GoValue (Int64Value 7), GoValue (BoolValue True) :: 64 word goval]"
        "[GoInt64 7, GoValue (BoolValue True)]"]
  by (simp add: castArgsToYQL_def castArgsToYQL_loop_value castArgsToYQL_loop_other
      prepareYQLParams_def prepareYQLParams_loop_value prepareYQLString_def
      prepareYQLString_loop_value declareLine_def decimal.simps digit_def)

section \<open>Properties of the debug renderer\<close>

subsection \<open>One turn of the loop\<close>

lemma Index_absent: "c \<notin> set s \<Longrightarrow> Index s [c] = None"
  by (induction s) auto

lemma Index_first: "c \<notin> set pre \<Longrightarrow> Index (pre @ c # post) [c] = Some (length pre)"
  by (induction pre) auto

lemma loop_absent:
  "c \<notin> set sql \<Longrightarrow>
   DebugSqlizer_loop other [c] args sql i buf = DebugSqlizer_finish args sql i buf"
  by (subst DebugSqlizer_loop.simps) (simp add: Index_absent)

lemma loop_escape:
  "CHR ''?'' \<notin> set pre \<Longrightarrow>
   DebugSqlizer_loop other ''?'' args (pre @ CHR ''?'' # CHR ''?'' # rest) i buf =
     DebugSqlizer_loop other ''?'' args rest i (buf @ pre @ ''?'')"
  by (subst DebugSqlizer_loop.simps) (simp add: Index_first)

lemma loop_hole:
  "c \<notin> set pre \<Longrightarrow> \<not> escape c post \<Longrightarrow>
   DebugSqlizer_loop other [c] args (pre @ c # post) i buf =
     (if i < length args
      then DebugSqlizer_loop other [c] args post (Suc i) (buf @ pre @ quoted other (args ! i))
      else TooManyPlaceholders (pre @ c # post) (length args))"
  by (subst DebugSqlizer_loop.simps) (auto simp: Index_first escape_def quoted_def)

subsection \<open>The specification's reading of a text\<close>

lemma holes_lit: "c \<noteq> x \<Longrightarrow> holes c (x # s) = holes c s"
  by (cases s) auto

lemma holes_hole: "take 1 s \<noteq> [c] \<Longrightarrow> holes c (c # s) = Suc (holes c s)"
  by (cases s) auto

lemma holes_pre: "c \<notin> set pre \<Longrightarrow> holes c (pre @ s) = holes c s"
  by (induction pre) (simp_all add: holes_lit)

lemma holes_absent: "c \<notin> set s \<Longrightarrow> holes c s = 0"
  using holes_pre [of c s "[]"] by simp

lemma filled_lit: "c \<noteq> x \<Longrightarrow> filled other c (x # s) args = x # filled other c s args"
  by (cases s) auto

lemma filled_hole:
  "take 1 s \<noteq> [c] \<Longrightarrow> filled other c (c # s) (a # as) = quoted other a @ filled other c s as"
  by (cases s) auto

lemma filled_pre: "c \<notin> set pre \<Longrightarrow> filled other c (pre @ s) args = pre @ filled other c s args"
  by (induction pre) (simp_all add: filled_lit)

lemma filled_absent: "c \<notin> set s \<Longrightarrow> filled other c s args = s"
  using filled_pre [of c s other "[]" args] by simp

lemma remaining_lit: "c \<noteq> x \<Longrightarrow> remaining c k cur (x # s) = remaining c k cur s"
  by (cases s) auto

lemma remaining_hole:
  "take 1 s \<noteq> [c] \<Longrightarrow> remaining c k cur (c # s) = (if k = 0 then cur else remaining c (k - 1) s s)"
  by (cases s) auto

lemma remaining_pre: "c \<notin> set pre \<Longrightarrow> remaining c k cur (pre @ s) = remaining c k cur s"
  by (induction pre) (simp_all add: remaining_lit)

lemma remaining_absent: "c \<notin> set s \<Longrightarrow> remaining c k cur s = cur"
  using remaining_pre [of c s k cur "[]"] by simp

lemma doubled_Cons: "\<not> doubled c (x # s) \<Longrightarrow> \<not> doubled c s"
  by (cases s) auto

lemma doubled_suffix: "\<not> doubled c (pre @ s) \<Longrightarrow> \<not> doubled c s"
  by (induction pre) (auto dest: doubled_Cons)

lemma doubled_head: "\<not> doubled c (c # s) \<Longrightarrow> take 1 s \<noteq> [c]"
  by (cases s) auto

text \<open>The shape of the text at the cursor, when the two readings of the escape agree.\<close>

lemma text_cases:
  assumes "c = CHR ''?'' \<or> \<not> doubled c sql"
  obtains (absent) "c \<notin> set sql"
  | (escape) pre rest where "c = CHR ''?''" "sql = pre @ c # c # rest" "c \<notin> set pre"
  | (hole) pre post where "sql = pre @ c # post" "c \<notin> set pre" "\<not> escape c post"
      "take 1 post \<noteq> [c]" "c = CHR ''?'' \<or> \<not> doubled c post"
proof (cases "c \<in> set sql")
  case False
  then show ?thesis by (rule absent)
next
  case True
  then obtain pre post where sp: "sql = pre @ c # post" "c \<notin> set pre"
    by (auto dest: split_list_first)
  show ?thesis
  proof (cases "escape c post")
    case True
    then have c: "c = CHR ''?''" and "take 1 post = ''?''" by (auto simp: escape_def)
    then obtain rest where "post = CHR ''?'' # rest" by (cases post) auto
    with sp c show ?thesis by (intro escape [of pre rest]) auto
  next
    case False
    have t: "take 1 post \<noteq> [c]"
    proof (cases "c = CHR ''?''")
      case True
      with False show ?thesis by (simp add: escape_def)
    next
      case False
      with assms sp have "\<not> doubled c (c # post)" by (auto dest: doubled_suffix)
      then show ?thesis by (rule doubled_head)
    qed
    have "c = CHR ''?'' \<or> \<not> doubled c post"
      using assms sp by (auto dest: doubled_suffix doubled_Cons)
    with sp False t show ?thesis by (rule hole)
  qed
qed

subsection \<open>The whole scan, for a single-character token\<close>

lemma loop_rendered:
  "c = CHR ''?'' \<or> \<not> doubled c sql \<Longrightarrow> holes c sql + i = length args \<Longrightarrow>
   DebugSqlizer_loop other [c] args sql i buf = Rendered (buf @ filled other c sql (drop i args))"
proof (induction "length sql" arbitrary: sql i buf rule: less_induct)
  case less
  from less.prems(1) show ?case
  proof (cases rule: text_cases)
    case absent
    with less.prems show ?thesis
      by (simp add: loop_absent holes_absent filled_absent DebugSqlizer_finish_def)
  next
    case (escape pre rest)
    have "holes c rest + i = length args"
      using less.prems(2) escape by (simp add: holes_pre)
    moreover have "length rest < length sql" using escape by simp
    moreover have "c = CHR ''?'' \<or> \<not> doubled c rest" using escape by simp
    ultimately have "DebugSqlizer_loop other [c] args rest i (buf @ pre @ ''?'')
        = Rendered ((buf @ pre @ ''?'') @ filled other c rest (drop i args))"
      using less.hyps by blast
    with escape show ?thesis
      by (simp add: loop_escape filled_pre)
  next
    case (hole pre post)
    have h: "holes c sql = Suc (holes c post)"
      using hole by (simp add: holes_pre holes_hole)
    with less.prems(2) have i: "i < length args" and h': "holes c post + Suc i = length args"
      by simp_all
    have "length post < length sql" using hole by simp
    with h' hole(5) have "DebugSqlizer_loop other [c] args post (Suc i) (buf @ pre @ quoted other (args ! i))
        = Rendered ((buf @ pre @ quoted other (args ! i)) @ filled other c post (drop (Suc i) args))"
      using less.hyps by blast
    moreover have "drop i args = args ! i # drop (Suc i) args"
      using i by (simp add: Cons_nth_drop_Suc)
    ultimately show ?thesis
      using hole i by (simp add: loop_hole filled_pre filled_hole)
  qed
qed

lemma loop_too_many:
  "c = CHR ''?'' \<or> \<not> doubled c sql \<Longrightarrow> length args < holes c sql + i \<Longrightarrow> i \<le> length args \<Longrightarrow>
   DebugSqlizer_loop other [c] args sql i buf
     = TooManyPlaceholders (remaining c (length args - i) sql sql) (length args)"
proof (induction "length sql" arbitrary: sql i buf rule: less_induct)
  case less
  from less.prems(1) show ?case
  proof (cases rule: text_cases)
    case absent
    with less.prems show ?thesis
      by (simp add: holes_absent)
  next
    case (escape pre rest)
    have "length args < holes c rest + i"
      using less.prems(2) escape by (simp add: holes_pre)
    moreover have "length rest < length sql" using escape by simp
    moreover have "c = CHR ''?'' \<or> \<not> doubled c rest" using escape by simp
    ultimately have "DebugSqlizer_loop other [c] args rest i (buf @ pre @ ''?'')
        = TooManyPlaceholders (remaining c (length args - i) rest rest) (length args)"
      using less.hyps less.prems(3) by blast
    with escape show ?thesis
      by (simp add: loop_escape remaining_pre)
  next
    case (hole pre post)
    have h: "holes c sql = Suc (holes c post)"
      using hole by (simp add: holes_pre holes_hole)
    show ?thesis
    proof (cases "i < length args")
      case False
      with less.prems(3) have i: "i = length args" by simp
      with hole show ?thesis
        by (simp add: loop_hole remaining_pre remaining_hole)
    next
      case True
      have "length args < holes c post + Suc i" using less.prems(2) h by simp
      moreover have "length post < length sql" using hole by simp
      moreover have "Suc i \<le> length args" using True by simp
      ultimately have "DebugSqlizer_loop other [c] args post (Suc i) (buf @ pre @ quoted other (args ! i))
             = TooManyPlaceholders (remaining c (length args - Suc i) post post) (length args)"
        using less.hyps hole(5) by blast
      with hole True show ?thesis
        by (simp add: loop_hole remaining_pre remaining_hole)
    qed
  qed
qed

lemma loop_not_enough:
  "c = CHR ''?'' \<or> \<not> doubled c sql \<Longrightarrow> holes c sql + i < length args \<Longrightarrow>
   DebugSqlizer_loop other [c] args sql i buf
     = NotEnoughPlaceholders (remaining c (length args - i) sql sql) (length args)"
proof (induction "length sql" arbitrary: sql i buf rule: less_induct)
  case less
  from less.prems(1) show ?case
  proof (cases rule: text_cases)
    case absent
    with less.prems show ?thesis
      by (simp add: loop_absent holes_absent remaining_absent DebugSqlizer_finish_def)
  next
    case (escape pre rest)
    have "holes c rest + i < length args"
      using less.prems(2) escape by (simp add: holes_pre)
    moreover have "length rest < length sql" using escape by simp
    moreover have "c = CHR ''?'' \<or> \<not> doubled c rest" using escape by simp
    ultimately have "DebugSqlizer_loop other [c] args rest i (buf @ pre @ ''?'')
        = NotEnoughPlaceholders (remaining c (length args - i) rest rest) (length args)"
      using less.hyps by blast
    with escape show ?thesis
      by (simp add: loop_escape remaining_pre)
  next
    case (hole pre post)
    have h: "holes c sql = Suc (holes c post)"
      using hole by (simp add: holes_pre holes_hole)
    with less.prems(2) have i: "i < length args" and "holes c post + Suc i < length args"
      by simp_all
    moreover have "length post < length sql" using hole by simp
    ultimately have "DebugSqlizer_loop other [c] args post (Suc i) (buf @ pre @ quoted other (args ! i))
           = NotEnoughPlaceholders (remaining c (length args - Suc i) post post) (length args)"
      using less.hyps hole(5) by blast
    with hole i show ?thesis
      by (simp add: loop_hole remaining_pre remaining_hole)
  qed
qed

subsection \<open>The error texts, for any token\<close>

text \<open>
  Whatever the placeholder: \<open>NotEnoughPlaceholders\<close> comes from the statement after the
  loop, with arguments left over and a remainder in which \<open>strings.Index\<close> finds no
  placeholder; \<open>TooManyPlaceholders\<close> comes from inside the loop, with a remainder whose
  first placeholder is not the escape. Both carry \<open>len(args)\<close> and a suffix of the text.
\<close>

lemma loop_errors_any_token:
  "(DebugSqlizer_loop other ph args sql i buf = NotEnoughPlaceholders r n \<longrightarrow>
      n = length args \<and> i < length args \<and> suffix r sql \<and> Index r ph = None) \<and>
   (DebugSqlizer_loop other ph args sql i buf = TooManyPlaceholders r n \<longrightarrow>
      n = length args \<and> suffix r sql \<and>
      (\<exists>p. Index r ph = Some p \<and> \<not> (length (drop p r) > 1 \<and> take 2 (drop p r) = ''??'')))"
proof (induction other ph args sql i buf rule: DebugSqlizer_loop.induct)
  case (1 other placeholder args sql i buf)
  show ?case
  proof (cases "Index sql placeholder")
    case None
    then show ?thesis
      by (subst (1 2) DebugSqlizer_loop.simps) (auto simp: DebugSqlizer_finish_def)
  next
    case (Some p)
    show ?thesis
    proof (cases "length (drop p sql) > 1 \<and> take 2 (drop p sql) = ''??''")
      case True
      then have "\<not> length (drop p sql) = 1" by simp
      with 1(1) [OF Some True] Some True show ?thesis
        by (subst (1 2) DebugSqlizer_loop.simps)
           (auto simp del: One_nat_def intro: suffix_drop suffix_order.trans)
    next
      case False
      show ?thesis
      proof (cases "i + 1 > length args \<or> p + 1 > length sql")
        case True
        with Some False show ?thesis
          by (subst (1 2) DebugSqlizer_loop.simps) auto
      next
        case F: False
        then have a: "\<not> i + 1 > length args" and b: "\<not> p + 1 > length sql" by simp_all
        from 1(2) [OF Some False a b] Some False a b show ?thesis
          by (subst (1 2) DebugSqlizer_loop.simps)
             (auto simp del: One_nat_def intro: suffix_drop suffix_order.trans)
      qed
    qed
  qed
qed

subsection \<open>\<open>DebugSqlizer\<close> as a whole\<close>

lemma DebugSqlizer_loop_entry:
  "ToSql s = (sql, args, None) \<Longrightarrow> placeholderOf s = ph \<Longrightarrow>
   DebugSqlizer other s = DebugSqlizer_loop other ph args sql 0 []"
  by (simp add: DebugSqlizer_def placeholderOf_def)

text \<open>
  C4, as claimed for every text and token, fails: with the token \<open>:\<close> the text
  \<open>t::int\<close> has no non-escaped placeholder in the specification's reading, the doubled
  token being the escape, and there is no argument; yet the rendering is not the text with
  one \<open>:\<close> but the too-many-placeholders error.
\<close>

theorem DebugSqlizer_doubled_colon_counterexample:
  "holes (CHR '':'') ''t::int'' = length ([] :: 64 word goval list) \<and>
   DebugSqlizer (\<lambda>a. [])
     \<lparr>ToSql = (''t::int'', [] :: 64 word goval list, None), debugPlaceholder = Some '':''\<rparr>
     = TooManyPlaceholders ''t::int'' 0"
  by (simp add: DebugSqlizer_def DebugSqlizer_loop.simps)

text \<open>
  C4, amended. For a single-character placeholder token that is \<open>?\<close>, or whose
  occurrences in the text are never followed at once by the token, a query text with
  exactly as many non-escaped placeholders as there are arguments is rendered without
  error: each placeholder becomes, from left to right, the next argument's \<open>%v\<close> text
  between single quotes, an escape becomes one literal token, and every other character
  stays as it is.
\<close>

theorem DebugSqlizer_fills_placeholders:
  assumes "ToSql s = (sql, args, None)" and "placeholderOf s = [c]"
    and "c = CHR ''?'' \<or> \<not> doubled c sql"
    and "holes c sql = length args"
  shows "DebugSqlizer other s = Rendered (filled other c sql args)"
  using assms loop_rendered [of c sql 0 args other "[]"]
  by (simp add: DebugSqlizer_loop_entry)

theorem DebugSqlizer_fills_placeholders_witness:
  "placeholderOf \<lparr>ToSql = (''a = ? AND b = ??x ?'', [GoString ''u'', GoBool False :: 64 word goval], None),
          debugPlaceholder = None\<rparr> = ''?'' \<and>
   holes (CHR ''?'') ''a = ? AND b = ??x ?'' = length [GoString ''u'', GoBool False :: 64 word goval] \<and>
   DebugSqlizer (\<lambda>a. [])
       \<lparr>ToSql = (''a = ? AND b = ??x ?'', [GoString ''u'', GoBool False :: 64 word goval], None),
        debugPlaceholder = None\<rparr>
     = Rendered (''a = '' @ [CHR 0x27] @ ''u'' @ [CHR 0x27] @ '' AND b = ?x '' @ [CHR 0x27] @ ''false'' @ [CHR 0x27]) \<and>
   \<not> doubled (CHR ''$'') ''a = $ OR ?? $'' \<and>
   holes (CHR ''$'') ''a = $ OR ?? $'' = length [GoString ''u'', GoBool False :: 64 word goval] \<and>
   DebugSqlizer (\<lambda>a. [])
       \<lparr>ToSql = (''a = $ OR ?? $'', [GoString ''u'', GoBool False :: 64 word goval], None),
        debugPlaceholder = Some ''$''\<rparr>
     = Rendered (''a = '' @ [CHR 0x27] @ ''u'' @ [CHR 0x27] @ '' OR ?? '' @ [CHR 0x27] @ ''false'' @ [CHR 0x27])"
  using DebugSqlizer_fills_placeholders
    [of "\<lparr>ToSql = (''a = ? AND b = ??x ?'', [GoString ''u'', GoBool False :: 64 word goval], None),
          debugPlaceholder = None\<rparr>"
        "''a = ? AND b = ??x ?''" "[GoString ''u'', GoBool False]" "CHR ''?''" "\<lambda>a. []"]
    DebugSqlizer_fills_placeholders
    [of "\<lparr>ToSql = (''a = $ OR ?? $'', [GoString ''u'', GoBool False :: 64 word goval], None),
          debugPlaceholder = Some ''$''\<rparr>"
        "''a = $ OR ?? $''" "[GoString ''u'', GoBool False]" "CHR ''$''" "\<lambda>a. []"]
  by (simp add: placeholderOf_def quoted_def apostrophe_def)

text \<open>
  C5, as claimed for every single-character token, fails: with the token \<open>$\<close> the
  doubled \<open>$$\<close> is not an escape; its first \<open>$\<close> asks for an argument.
\<close>

theorem DebugSqlizer_doubled_token_counterexample:
  "DebugSqlizer (\<lambda>a. [])
     \<lparr>ToSql = (''a $$ b'', [] :: 64 word goval list, None), debugPlaceholder = Some ''$''\<rparr>
     = TooManyPlaceholders ''a $$ b'' 0"
  by (simp add: DebugSqlizer_def DebugSqlizer_loop.simps)

text \<open>
  C5, amended. The escape is the doubled question mark, the default token: at \<open>??\<close>
  the loop writes the text before it and one \<open>?\<close>, moves the cursor past both
  characters and leaves the argument index alone; so \<open>SELECT ?? , ?\<close> with the
  argument \<open>true\<close> renders as \<open>SELECT ? , 'true'\<close>. For a single-character token
  other than \<open>?\<close> a doubled occurrence is no escape: its first character is a
  placeholder, which takes the next argument or fails when none is left.
\<close>

theorem DebugSqlizer_escape:
  "(CHR ''?'' \<notin> set pre \<longrightarrow>
      DebugSqlizer_loop other ''?'' args (pre @ ''??'' @ rest) i buf
        = DebugSqlizer_loop other ''?'' args rest i (buf @ pre @ ''?'')) \<and>
   DebugSqlizer other \<lparr>ToSql = (''SELECT ?? , ?'', [GoBool True], None), debugPlaceholder = None\<rparr>
     = Rendered (''SELECT ? , '' @ [CHR 0x27] @ ''true'' @ [CHR 0x27]) \<and>
   (c \<noteq> CHR ''?'' \<longrightarrow> c \<notin> set pre \<longrightarrow>
      DebugSqlizer_loop other [c] args (pre @ [c, c] @ rest) i buf
        = (if i < length args
           then DebugSqlizer_loop other [c] args (c # rest) (Suc i) (buf @ pre @ quoted other (args ! i))
           else TooManyPlaceholders (pre @ [c, c] @ rest) (length args)))"
proof -
  have "DebugSqlizer other \<lparr>ToSql = (''SELECT ?? , ?'', [GoBool True], None), debugPlaceholder = None\<rparr>
     = Rendered (''SELECT ? , '' @ [CHR 0x27] @ ''true'' @ [CHR 0x27])"
    by (simp add: DebugSqlizer_def DebugSqlizer_loop.simps DebugSqlizer_finish_def apostrophe_def)
  moreover have "DebugSqlizer_loop other [c] args (pre @ [c, c] @ rest) i buf
        = (if i < length args
           then DebugSqlizer_loop other [c] args (c # rest) (Suc i) (buf @ pre @ quoted other (args ! i))
           else TooManyPlaceholders (pre @ [c, c] @ rest) (length args))"
    if "c \<noteq> CHR ''?''" "c \<notin> set pre"
    using that loop_hole [of c pre "c # rest" other args i buf] by (simp add: escape_def)
  ultimately show ?thesis
    by (simp add: loop_escape)
qed

theorem DebugSqlizer_escape_witness:
  "CHR ''?'' \<notin> set ''a'' \<and>
   DebugSqlizer_loop (\<lambda>a. []) ''?'' [GoBool True :: 64 word goval] (''a'' @ ''??'' @ ''b?'') 0 []
     = Rendered (''a?b'' @ [CHR 0x27] @ ''true'' @ [CHR 0x27]) \<and>
   CHR ''$'' \<noteq> CHR ''?'' \<and> CHR ''$'' \<notin> set ''a'' \<and>
   DebugSqlizer_loop (\<lambda>a. []) ''$'' [GoBool True :: 64 word goval] (''a'' @ ''$$'' @ ''b?'') 0 []
     = TooManyPlaceholders ''$b?'' 1"
  using DebugSqlizer_escape
    [of "''a''" "\<lambda>a. []" "[GoBool True :: 64 word goval]" "''b?''" 0 "[]" "CHR ''$''"]
  by (simp add: DebugSqlizer_loop.simps DebugSqlizer_finish_def quoted_def apostrophe_def)

text \<open>
  C6, as claimed, fails: with the token \<open>$\<close>, the text \<open>$$\<close> and one argument, the
  text has no non-escaped placeholder in the specification's reading and an argument is
  left over, which is the case of not-enough-placeholders; the rendering is the
  too-many-placeholders error.
\<close>

theorem DebugSqlizer_doubled_dollar_counterexample:
  "holes (CHR ''$'') ''$$'' = 0 \<and>
   DebugSqlizer (\<lambda>a. [])
     \<lparr>ToSql = (''$$'', [GoBool True :: 64 word goval], None), debugPlaceholder = Some ''$''\<rparr>
     = TooManyPlaceholders ''$'' 1"
  by (simp add: DebugSqlizer_def DebugSqlizer_loop.simps)

text \<open>
  C6, amended. Whatever the token, \<open>TooManyPlaceholders\<close> carries the argument count and
  a suffix of the text whose first placeholder is not the escape \<open>??\<close>, and
  \<open>NotEnoughPlaceholders\<close> carries the argument count and a suffix of the text in which
  no placeholder is left: it is decided after the scan. For a single-character token that
  is \<open>?\<close>, or whose occurrences in the text are never followed at once by the token, the
  rendering is \<open>TooManyPlaceholders\<close> exactly when the text has more non-escaped
  placeholders than there are arguments, and \<open>NotEnoughPlaceholders\<close> exactly when it
  has fewer; either carries the argument count and the remaining text of the scan, the
  text behind the last escape or placeholder passed.
\<close>

theorem DebugSqlizer_placeholder_errors:
  assumes "ToSql s = (sql, args, None)"
  shows
   "(DebugSqlizer other s = TooManyPlaceholders r n \<longrightarrow>
       n = length args \<and> suffix r sql \<and>
       (\<exists>p. Index r (placeholderOf s) = Some p \<and>
            \<not> (length (drop p r) > 1 \<and> take 2 (drop p r) = ''??''))) \<and>
    (DebugSqlizer other s = NotEnoughPlaceholders r n \<longrightarrow>
       n = length args \<and> suffix r sql \<and> Index r (placeholderOf s) = None) \<and>
    (placeholderOf s = [c] \<longrightarrow> c = CHR ''?'' \<or> \<not> doubled c sql \<longrightarrow>
       (DebugSqlizer other s = TooManyPlaceholders r n \<longleftrightarrow>
          length args < holes c sql \<and> r = remaining c (length args) sql sql \<and> n = length args) \<and>
       (DebugSqlizer other s = NotEnoughPlaceholders r n \<longleftrightarrow>
          holes c sql < length args \<and> r = remaining c (length args) sql sql \<and> n = length args))"
proof -
  let ?D = "DebugSqlizer other s"
  have any: "?D = DebugSqlizer_loop other (placeholderOf s) args sql 0 []"
    using assms by (simp add: DebugSqlizer_loop_entry)
  have general: "(?D = TooManyPlaceholders r n \<longrightarrow>
       n = length args \<and> suffix r sql \<and>
       (\<exists>p. Index r (placeholderOf s) = Some p \<and>
            \<not> (length (drop p r) > 1 \<and> take 2 (drop p r) = ''??''))) \<and>
    (?D = NotEnoughPlaceholders r n \<longrightarrow>
       n = length args \<and> suffix r sql \<and> Index r (placeholderOf s) = None)"
    unfolding any
    using loop_errors_any_token [of other "placeholderOf s" args sql 0 "[]" r n] by blast
  have single: "(?D = TooManyPlaceholders r n \<longleftrightarrow>
          length args < holes c sql \<and> r = remaining c (length args) sql sql \<and> n = length args) \<and>
       (?D = NotEnoughPlaceholders r n \<longleftrightarrow>
          holes c sql < length args \<and> r = remaining c (length args) sql sql \<and> n = length args)"
    if ph: "placeholderOf s = [c]" and ok: "c = CHR ''?'' \<or> \<not> doubled c sql"
  proof -
    have D: "?D = DebugSqlizer_loop other [c] args sql 0 []"
      using any ph by simp
    consider (eq) "holes c sql = length args" | (more) "length args < holes c sql"
      | (less) "holes c sql < length args"
      by linarith
    then show ?thesis
    proof cases
      case eq
      then have "?D = Rendered (filled other c sql args)"
        using loop_rendered [OF ok, of 0 args other "[]"] D by simp
      with eq show ?thesis by simp
    next
      case more
      then have "?D = TooManyPlaceholders (remaining c (length args) sql sql) (length args)"
        using loop_too_many [OF ok, of args 0 other "[]"] D by simp
      with more show ?thesis by auto
    next
      case less
      then have "?D = NotEnoughPlaceholders (remaining c (length args) sql sql) (length args)"
        using loop_not_enough [OF ok, of 0 args other "[]"] D by simp
      with less show ?thesis by auto
    qed
  qed
  from general single show ?thesis by blast
qed

theorem DebugSqlizer_placeholder_errors_witness:
  "DebugSqlizer (\<lambda>a. [])
     \<lparr>ToSql = (''a=? ??b=?c'', [GoBool True :: 64 word goval], None), debugPlaceholder = None\<rparr>
     = TooManyPlaceholders ''b=?c'' 1 \<and>
   length [GoBool True :: 64 word goval] < holes (CHR ''?'') ''a=? ??b=?c'' \<and>
   remaining (CHR ''?'') 1 ''a=? ??b=?c'' ''a=? ??b=?c'' = ''b=?c'' \<and>
   DebugSqlizer (\<lambda>a. [])
     \<lparr>ToSql = (''a=? b=1'', [GoBool True, GoBool False :: 64 word goval], None), debugPlaceholder = None\<rparr>
     = NotEnoughPlaceholders '' b=1'' 2 \<and>
   holes (CHR ''?'') ''a=? b=1'' < length [GoBool True, GoBool False :: 64 word goval] \<and>
   remaining (CHR ''?'') 2 ''a=? b=1'' ''a=? b=1'' = '' b=1''"
  using DebugSqlizer_placeholder_errors
    [of "\<lparr>ToSql = (''a=? ??b=?c'', [GoBool True :: 64 word goval], None), debugPlaceholder = None\<rparr>"
        "''a=? ??b=?c''" "[GoBool True]" "\<lambda>a. []" "''b=?c''" 1 "CHR ''?''"]
    DebugSqlizer_placeholder_errors
    [of "\<lparr>ToSql = (''a=? b=1'', [GoBool True, GoBool False :: 64 word goval], None), debugPlaceholder = None\<rparr>"
        "''a=? b=1''" "[GoBool True, GoBool False]" "\<lambda>a. []" "'' b=1''" 2 "CHR ''?''"]
  by (simp add: placeholderOf_def DebugSqlizer_def DebugSqlizer_loop.simps DebugSqlizer_finish_def
      quoted_def)

section \<open>Properties of single-row execution\<close>

text \<open>
  C3. \<open>QueryRowWith\<close> calls the backend's \<open>QueryRow\<close> with the query and arguments
  that \<open>ToSql\<close> returned, also when \<open>ToSql\<close> returned an error; the handle holds the
  cursor of that call and the error of \<open>ToSql\<close>, and scanning a handle that holds an
  error returns that error and does not touch the cursor.
\<close>

theorem QueryRowWith_defers_error:
  "QueryRowWith QueryRow db s =
     (\<lparr>RowScanner = fst (QueryRow db (fst (ToSql s)) (fst (snd (ToSql s)))),
       err = snd (snd (ToSql s))\<rparr>,
      snd (QueryRow db (fst (ToSql s)) (fst (snd (ToSql s))))) \<and>
   (\<forall>e. snd (snd (ToSql s)) = Some e \<longrightarrow>
      Row_Scan Scan (fst (QueryRowWith QueryRow db s)) = (Some e, fst (QueryRowWith QueryRow db s)))"
  by (simp add: QueryRowWith_def Row_Scan_def split: prod.splits)

theorem QueryRowWith_defers_error_witness:
  "QueryRowWith (\<lambda>db query args. (length db, db @ [(query, args)])) []
     \<lparr>ToSql = ([], [] :: 64 word goval list, Some (ProductionError ''no table'')), debugPlaceholder = None\<rparr>
     = (\<lparr>RowScanner = 0, err = Some (ProductionError ''no table'')\<rparr>, [([], [])]) \<and>
   Row_Scan (\<lambda>cursor. (None, Suc cursor))
     \<lparr>RowScanner = 0 :: nat, err = Some (ProductionError ''no table'' :: 64 word error)\<rparr>
     = (Some (ProductionError ''no table''), \<lparr>RowScanner = 0, err = Some (ProductionError ''no table'')\<rparr>)"
  using QueryRowWith_defers_error
    [of "\<lambda>db query args. (length db, db @ [(query, args)])" "[]"
        "\<lparr>ToSql = ([], [] :: 64 word goval list, Some (ProductionError ''no table'')), debugPlaceholder = None\<rparr>"
        "\<lambda>cursor. (None, Suc cursor)"]
  by (simp add: QueryRowWith_def)

end
